theory Spec2Isabelle
  imports Complex_Main
begin

section \<open>Metrics engine (utils/statsCalculator)\<close>

text \<open>
  JavaScript numbers are IEEE 754 doubles. A finite double is modelled by the rational
  number it denotes, and an arithmetic operation by the exact operation followed by
  \<open>binary64\<close>, the rounding to the nearest number with a significand of 53 bits, a tie
  going to the even significand. The exponent is not bounded: overflow to
  \<open>Infinity\<close>, subnormal numbers and \<open>NaN\<close> are outside the model; the counts and
  times of a typing session are far inside the normal range.
\<close>

text \<open>Rounding to the nearest integer, a tie going to the even one.\<close>

definition round_even :: "rat \<Rightarrow> int" where
  "round_even x =
     (let f = \<lfloor>x\<rfloor>; d = x - of_int f
      in if d < 1 / 2 then f
         else if 1 / 2 < d then f + 1
         else if even f then f else f + 1)"

text \<open>The binary exponent of a positive number: \<open>2 powi ilog2 x \<le> x < 2 powi (ilog2 x + 1)\<close>.\<close>

function ilog2 :: "rat \<Rightarrow> int" where
  "ilog2 x =
     (if x \<le> 0 then 0
      else if x < 1 then ilog2 (2 * x) - 1
      else if 2 \<le> x then ilog2 (x / 2) + 1
      else 0)"
  by pat_completeness auto
termination
proof (relation "measure (\<lambda>x. 2 * nat \<lceil>1 / x\<rceil> + nat \<lfloor>x\<rfloor>)")
  show "wf (measure (\<lambda>x. 2 * nat \<lceil>1 / x\<rceil> + nat \<lfloor>x\<rfloor>))" by simp
next
  fix x :: rat
  assume a: "\<not> x \<le> 0" "x < 1"
  have f0: "\<lfloor>x\<rfloor> = 0" using a by (simp add: floor_eq_iff)
  have f1: "\<lfloor>2 * x\<rfloor> \<le> 1" using a by (simp add: floor_le_iff)
  have "1 / (2 * x) \<le> of_int (\<lceil>1 / x\<rceil> - 1)"
  proof -
    have "1 < 1 / x" using a by simp
    then have "2 \<le> \<lceil>1 / x\<rceil>" by (simp add: le_ceiling_iff)
    have "1 / x \<le> of_int \<lceil>1 / x\<rceil>" by simp
    then have "1 / (2 * x) \<le> of_int \<lceil>1 / x\<rceil> / 2" by simp
    also have "\<dots> \<le> of_int (\<lceil>1 / x\<rceil> - 1)"
      using \<open>2 \<le> \<lceil>1 / x\<rceil>\<close> by simp
    finally show ?thesis .
  qed
  then have c: "\<lceil>1 / (2 * x)\<rceil> \<le> \<lceil>1 / x\<rceil> - 1" by (rule ceiling_le)
  have "0 < \<lceil>1 / x\<rceil>" using a by (simp add: less_ceiling_iff)
  with c f0 f1 show "(2 * x, x) \<in> measure (\<lambda>x. 2 * nat \<lceil>1 / x\<rceil> + nat \<lfloor>x\<rfloor>)"
    by simp linarith
next
  fix x :: rat
  assume a: "\<not> x \<le> 0" "\<not> x < 1" "2 \<le> x"
  have c1: "\<lceil>1 / x\<rceil> = 1" using a by (simp add: ceiling_eq_iff)
  have c2: "\<lceil>1 / (x / 2)\<rceil> = 1" using a by (simp add: ceiling_eq_iff)
  have "x / 2 < of_int \<lfloor>x\<rfloor>"
  proof -
    have "x < of_int \<lfloor>x\<rfloor> + 1" by linarith
    moreover have "2 \<le> \<lfloor>x\<rfloor>" using a by (simp add: le_floor_iff)
    then have "(2::rat) \<le> of_int \<lfloor>x\<rfloor>" by (metis of_int_le_iff of_int_numeral)
    ultimately show ?thesis by linarith
  qed
  then have "\<lfloor>x / 2\<rfloor> < \<lfloor>x\<rfloor>" by (simp add: floor_less_iff)
  moreover have "0 \<le> \<lfloor>x / 2\<rfloor>" using a by simp
  ultimately show "(x / 2, x) \<in> measure (\<lambda>x. 2 * nat \<lceil>1 / x\<rceil> + nat \<lfloor>x\<rfloor>)"
    using a c1 c2 by simp
qed

declare ilog2.simps [simp del]

definition binary64 :: "rat \<Rightarrow> rat" where
  "binary64 x =
     (if x = 0 then 0
      else let e = ilog2 \<bar>x\<bar> - 52;
               m = round_even (\<bar>x\<bar> / 2 powi e)
           in sgn x * of_int m * 2 powi e)"

text \<open>
  \<open>Math.round\<close> gives the nearest integer, a tie going up: it is \<open>\<lfloor>x + 1/2\<rfloor>\<close>, with
  no rounding error.
\<close>

definition Math_round :: "rat \<Rightarrow> rat" where
  "Math_round x = of_int \<lfloor>x + 1 / 2\<rfloor>"

definition calculateWPM :: "rat \<Rightarrow> rat \<Rightarrow> rat" where
  "calculateWPM correctChars elapsedTimeMs =
     (if elapsedTimeMs \<le> 0 then 0
      else let words = binary64 (correctChars / 5);
               minutes = binary64 (elapsedTimeMs / 60000);
               wpm = binary64 (words / minutes)
           in binary64 (Math_round (binary64 (wpm * 10)) / 10))"

definition calculateAccuracy :: "rat \<Rightarrow> rat \<Rightarrow> rat" where
  "calculateAccuracy correctChars totalChars =
     (if totalChars \<le> 0 then 100
      else let accuracy = binary64 (binary64 (correctChars / totalChars) * 100)
           in binary64 (Math_round (binary64 (accuracy * 10)) / 10))"

section \<open>Typing session (hooks/useTypingSession)\<close>

datatype mode = Learning | Test

datatype char_status = Correct | Incorrect | Current | Pending

text \<open>
  One element of \<open>typedChars\<close>. \<open>expected\<close> is \<open>text[currentIndex]\<close>, which
  is \<open>undefined\<close> (here \<open>None\<close>) when the index is past the end of the text.
\<close>

record typed_char =
  char :: char
  expected :: "char option"
  correct :: bool

record session =
  currentIndex :: nat
  typedChars :: "typed_char list"
  hasStarted :: bool
  isComplete :: bool
  startTimeRef :: "nat option"
  elapsedTime :: nat
  errors :: nat
  correctCount :: nat

text \<open>The calls the hook makes on the application context (\<open>actions.*\<close>).\<close>

datatype app_call =
  startSession
  | endSession
  | resetSession
  | recordMistypedKey "char option"

definition initial_session :: session where
  "initial_session =
     \<lparr>currentIndex = 0, typedChars = [], hasStarted = False, isComplete = False,
      startTimeRef = None, elapsedTime = 0, errors = 0, correctCount = 0\<rparr>"

definition reset :: "session \<Rightarrow> session \<times> app_call list" where
  "reset s =
     (s\<lparr>currentIndex := 0, typedChars := [], hasStarted := False, isComplete := False,
        elapsedTime := 0, errors := 0, correctCount := 0, startTimeRef := None\<rparr>,
      [resetSession])"

text \<open>
  JavaScript string indexing \<open>text[i]\<close>: the character at \<open>i\<close>, or
  \<open>undefined\<close> past the end.
\<close>

definition text_index :: "string \<Rightarrow> nat \<Rightarrow> char option" where
  "text_index txt i = (if i < length txt then Some (txt ! i) else None)"

text \<open>
  \<open>handleKeyPress\<close> for the text \<open>txt\<close>, at clock reading \<open>now\<close>, with the typed
  key \<open>k\<close>. It returns the new session and the context calls it made, in order.
\<close>

definition handleKeyPress ::
  "string \<Rightarrow> nat \<Rightarrow> char \<Rightarrow> session \<Rightarrow> session \<times> app_call list" where
  "handleKeyPress txt now k s =
     (if isComplete s \<or> txt = [] then (s, [])
      else let
        s1 = (if \<not> hasStarted s
              then s\<lparr>hasStarted := True, startTimeRef := Some now\<rparr> else s);
        a1 = (if \<not> hasStarted s then [startSession] else []);
        expectedChar = text_index txt (currentIndex s);
        isCorrect = (Some k = expectedChar);
        s2 = s1\<lparr>typedChars :=
               typedChars s1 @ [\<lparr>char = k, expected = expectedChar, correct = isCorrect\<rparr>]\<rparr>;
        s3 = (if isCorrect then s2\<lparr>correctCount := correctCount s2 + 1\<rparr>
              else s2\<lparr>errors := errors s2 + 1\<rparr>);
        a2 = (if isCorrect then [] else [recordMistypedKey expectedChar]);
        nextIndex = currentIndex s + 1;
        s4 = s3\<lparr>currentIndex := nextIndex\<rparr>
      in if nextIndex \<ge> length txt
         then (s4\<lparr>isComplete := True\<rparr>, a1 @ a2 @ [endSession])
         else (s4, a1 @ a2))"

text \<open>
  \<open>handleBackspace\<close>: \<open>typedChars[typedChars.length - 1]\<close> is \<open>undefined\<close> on an
  empty list, \<open>slice(0, -1)\<close> drops the last element, and the counters are
  decremented through \<open>Math.max(0, prev - 1)\<close>. It makes no context call.
\<close>

definition dec0 :: "nat \<Rightarrow> nat" where
  "dec0 prev = nat (max 0 (int prev - 1))"

definition handleBackspace :: "mode \<Rightarrow> session \<Rightarrow> session \<times> app_call list" where
  "handleBackspace m s =
     (if m \<noteq> Learning \<or> currentIndex s = 0 then (s, [])
      else let
        s1 = s\<lparr>currentIndex := currentIndex s - 1, typedChars := butlast (typedChars s)\<rparr>;
        lastTyped = (if typedChars s = [] then None else Some (last (typedChars s)))
      in (case lastTyped of
            None \<Rightarrow> (s1, [])
          | Some l \<Rightarrow>
              if \<not> correct l then (s1\<lparr>errors := dec0 (errors s1)\<rparr>, [])
              else (s1\<lparr>correctCount := dec0 (correctCount s1)\<rparr>, [])))"

definition getCharStatus :: "session \<Rightarrow> nat \<Rightarrow> char_status" where
  "getCharStatus s index =
     (if index < length (typedChars s)
      then (if correct (typedChars s ! index) then Correct else Incorrect)
      else if index = currentIndex s then Current
      else Pending)"

definition totalTyped :: "session \<Rightarrow> nat" where
  "totalTyped s = length (typedChars s)"

definition wpm :: "session \<Rightarrow> rat" where
  "wpm s = calculateWPM (of_nat (correctCount s)) (of_nat (elapsedTime s))"

definition accuracy :: "session \<Rightarrow> rat" where
  "accuracy s = calculateAccuracy (of_nat (correctCount s)) (of_nat (totalTyped s))"

text \<open>Feeding a list of keystrokes through \<open>handleKeyPress\<close>, one call per key.\<close>

fun feedKeys :: "string \<Rightarrow> nat \<Rightarrow> char list \<Rightarrow> session \<Rightarrow> session" where
  "feedKeys txt now [] s = s"
| "feedKeys txt now (k # ks) s = feedKeys txt now ks (fst (handleKeyPress txt now k s))"

section \<open>Keyboard input (hooks/useKeyboardInput)\<close>

record key_event =
  key :: string
  ctrlKey :: bool
  metaKey :: bool
  altKey :: bool

text \<open>The callbacks \<open>handleKeyDown\<close> can invoke.\<close>

datatype input_call = onKeyPress char | onBackspace

text \<open>
  \<open>handleKeyDown\<close>: \<open>enabled\<close> is the hook's flag, \<open>hasKeyPress\<close> and
  \<open>hasBackspace\<close> say whether the caller passed the callback. The result is the
  list of callbacks invoked, in order.
\<close>

definition handleKeyDown :: "bool \<Rightarrow> bool \<Rightarrow> bool \<Rightarrow> key_event \<Rightarrow> input_call list" where
  "handleKeyDown enabled hasKeyPress hasBackspace ev =
     (if \<not> enabled then []
      else if key ev = ''Tab'' \<or> key ev = ''F5'' then []
      else if key ev = ''Backspace'' then (if hasBackspace then [onBackspace] else [])
      else if key ev \<in> set [''Shift'', ''Control'', ''Alt'', ''Meta'', ''CapsLock'', ''Escape'']
           then []
      else if ctrlKey ev \<or> metaKey ev \<or> altKey ev then []
      else (if length (key ev) = 1 \<and> hasKeyPress then [onKeyPress (hd (key ev))] else [])
           @ (if key ev = ''Enter'' \<and> hasKeyPress then [onKeyPress (CHR 0x0A)] else []))"

text \<open>
  One call of a session handler, and a sequence of such calls with their clock readings.
  Events are handled one at a time: each call sees the state the previous call left.
\<close>

definition apply_call ::
  "mode \<Rightarrow> string \<Rightarrow> nat \<Rightarrow> input_call \<Rightarrow> session \<Rightarrow> session \<times> app_call list" where
  "apply_call m txt now c s =
     (case c of
        onKeyPress k \<Rightarrow> handleKeyPress txt now k s
      | onBackspace \<Rightarrow> handleBackspace m s)"

fun run_calls :: "mode \<Rightarrow> string \<Rightarrow> (nat \<times> input_call) list \<Rightarrow> session \<Rightarrow> session" where
  "run_calls m txt [] s = s"
| "run_calls m txt (c # cs) s = run_calls m txt cs (fst (apply_call m txt (fst c) (snd c) s))"

subsection \<open>The two mode components\<close>

text \<open>
  \<open>LearningMode\<close> passes both callbacks and enables the keyboard while the session is
  not complete. \<open>TestMode\<close> passes no \<open>onBackspace\<close> and enables the keyboard while
  the session is not complete, the timer has not finished and the results are not shown.
\<close>

definition LearningMode_keydown :: "string \<Rightarrow> nat \<Rightarrow> key_event \<Rightarrow> session \<Rightarrow> session" where
  "LearningMode_keydown txt now ev s =
     run_calls Learning txt
       (map (Pair now) (handleKeyDown (\<not> isComplete s) True True ev)) s"

definition TestMode_keydown ::
  "string \<Rightarrow> bool \<Rightarrow> bool \<Rightarrow> nat \<Rightarrow> key_event \<Rightarrow> session \<Rightarrow> session" where
  "TestMode_keydown txt timerFinished showResults now ev s =
     run_calls Test txt
       (map (Pair now)
          (handleKeyDown (\<not> isComplete s \<and> \<not> timerFinished \<and> \<not> showResults) True False ev)) s"

fun LearningMode_run :: "string \<Rightarrow> (nat \<times> key_event) list \<Rightarrow> session \<Rightarrow> session" where
  "LearningMode_run txt [] s = s"
| "LearningMode_run txt (e # es) s =
     LearningMode_run txt es (LearningMode_keydown txt (fst e) (snd e) s)"

fun TestMode_run ::
  "string \<Rightarrow> (bool \<times> bool \<times> nat \<times> key_event) list \<Rightarrow> session \<Rightarrow> session" where
  "TestMode_run txt [] s = s"
| "TestMode_run txt (e # es) s =
     TestMode_run txt es
       (TestMode_keydown txt (fst e) (fst (snd e)) (fst (snd (snd e))) (snd (snd (snd e))) s)"

section \<open>Application context (context/AppContext)\<close>

text \<open>
  The part of the reducer's state the session touches; the settings, the exercises, the
  current statistics and the results are left out. JavaScript is untyped: the two
  progress fields are type parameters, a list of records and a tally of numbers in normal
  operation, arbitrary JSON values after an import.
\<close>

record ('h, 'm) app_state =
  isSessionActive :: bool
  history :: 'h
  mistypedKeys :: 'm

definition START_SESSION :: "('h, 'm) app_state \<Rightarrow> ('h, 'm) app_state" where
  "START_SESSION st = st\<lparr>isSessionActive := True\<rparr>"

definition END_SESSION :: "('h, 'm) app_state \<Rightarrow> ('h, 'm) app_state" where
  "END_SESSION st = st\<lparr>isSessionActive := False\<rparr>"

definition RESET_SESSION :: "('h, 'm) app_state \<Rightarrow> ('h, 'm) app_state" where
  "RESET_SESSION st = st\<lparr>isSessionActive := False\<rparr>"

definition ADD_HISTORY :: "'r \<Rightarrow> ('r list, 'm) app_state \<Rightarrow> ('r list, 'm) app_state" where
  "ADD_HISTORY payload st = st\<lparr>history := take 100 (payload # history st)\<rparr>"

definition SET_HISTORY :: "'h \<Rightarrow> ('h, 'm) app_state \<Rightarrow> ('h, 'm) app_state" where
  "SET_HISTORY payload st = st\<lparr>history := payload\<rparr>"

definition SET_MISTYPED_KEYS :: "'m \<Rightarrow> ('h, 'm) app_state \<Rightarrow> ('h, 'm) app_state" where
  "SET_MISTYPED_KEYS payload st = st\<lparr>mistypedKeys := payload\<rparr>"

text \<open>
  A value used as a property name: a one-character string names itself, \<open>undefined\<close>
  names the property \<open>undefined\<close>.
\<close>

definition property_key :: "char option \<Rightarrow> string" where
  "property_key v = (case v of None \<Rightarrow> ''undefined'' | Some c \<Rightarrow> [c])"

text \<open>\<open>newMistypedKeys[key] = (newMistypedKeys[key] || 0) + 1\<close> on a copy of the tally.\<close>

definition UPDATE_MISTYPED_KEYS ::
  "char option \<Rightarrow> ('h, string \<rightharpoonup> nat) app_state \<Rightarrow> ('h, string \<rightharpoonup> nat) app_state" where
  "UPDATE_MISTYPED_KEYS payload st =
     (let newMistypedKeys = mistypedKeys st;
          k = property_key payload;
          old = (case newMistypedKeys k of None \<Rightarrow> 0 | Some n \<Rightarrow> if n = 0 then 0 else n)
      in st\<lparr>mistypedKeys := newMistypedKeys(k \<mapsto> old + 1)\<rparr>)"

definition dispatch_call ::
  "app_call \<Rightarrow> ('h, string \<rightharpoonup> nat) app_state \<Rightarrow> ('h, string \<rightharpoonup> nat) app_state" where
  "dispatch_call c st =
     (case c of
        startSession \<Rightarrow> START_SESSION st
      | endSession \<Rightarrow> END_SESSION st
      | resetSession \<Rightarrow> RESET_SESSION st
      | recordMistypedKey k \<Rightarrow> UPDATE_MISTYPED_KEYS k st)"




fun add_all :: "'r list \<Rightarrow> ('r list, 'm) app_state \<Rightarrow> ('r list, 'm) app_state" where
  "add_all [] st = st"
| "add_all (r # rs) st = add_all rs (ADD_HISTORY r st)"


section \<open>Export and import of progress (utils/storage, AppContext)\<close>

datatype json =
  JNull
  | JBool bool
  | JNum rat
  | JStr string
  | JArr "json list"
  | JObj "(string \<times> json) list"

text \<open>
  A JavaScript value that may be \<open>undefined\<close> is a \<open>json option\<close>. Truthiness:
  \<open>undefined\<close>, \<open>null\<close>, \<open>false\<close>, \<open>0\<close> and the empty string are falsy, every
  array and object is truthy.
\<close>

fun truthy :: "json option \<Rightarrow> bool" where
  "truthy None = False"
| "truthy (Some JNull) = False"
| "truthy (Some (JBool b)) = b"
| "truthy (Some (JNum n)) = (n \<noteq> 0)"
| "truthy (Some (JStr s)) = (s \<noteq> [])"
| "truthy (Some (JArr xs)) = True"
| "truthy (Some (JObj kvs)) = True"

fun isArray :: "json option \<Rightarrow> bool" where
  "isArray (Some (JArr xs)) = True"
| "isArray v = False"

text \<open>\<open>typeof v === 'object'\<close>: arrays, objects and \<open>null\<close>.\<close>

fun typeof_object :: "json option \<Rightarrow> bool" where
  "typeof_object (Some (JArr xs)) = True"
| "typeof_object (Some (JObj kvs)) = True"
| "typeof_object (Some JNull) = True"
| "typeof_object v = False"

text \<open>Property access \<open>data.name\<close> on a parsed value: only an object has named fields.\<close>

fun get_prop :: "json \<Rightarrow> string \<Rightarrow> json option" where
  "get_prop (JObj kvs) name = map_of kvs name"
| "get_prop v name = None"

text \<open>\<open>v || d\<close>.\<close>

definition or_else :: "json option \<Rightarrow> json \<Rightarrow> json" where
  "or_else v d = (case v of None \<Rightarrow> d | Some x \<Rightarrow> if truthy v then x else d)"

text \<open>Setting a property of an object literal: an existing key keeps its place.\<close>

fun set_prop :: "(string \<times> json) list \<Rightarrow> string \<Rightarrow> json \<Rightarrow> (string \<times> json) list" where
  "set_prop [] name v = [(name, v)]"
| "set_prop ((k, w) # kvs) name v =
     (if k = name then (k, v) # kvs else (k, w) # set_prop kvs name v)"

text \<open>
  \<open>exportProgress\<close>. \<open>JSON.stringify\<close> is the parameter \<open>stringify\<close> (\<open>None\<close> when it
  throws) and \<open>new Date().toISOString()\<close> is \<open>isoNow\<close>; \<open>data\<close> is the property list of
  the progress object.
\<close>

definition exportProgress ::
  "(json \<Rightarrow> string option) \<Rightarrow> string \<Rightarrow> (string \<times> json) list \<Rightarrow> string option" where
  "exportProgress stringify isoNow data =
     (let exportData =
            set_prop (set_prop data ''exportedAt'' (JStr isoNow)) ''version'' (JStr ''1.0'')
      in stringify (JObj exportData))"

text \<open>
  \<open>importProgress\<close>. \<open>JSON.parse\<close> is the parameter \<open>parse\<close> (\<open>None\<close> when it throws,
  which the \<open>catch\<close> turns into the \<open>null\<close> result).
\<close>

definition importProgress :: "(string \<Rightarrow> json option) \<Rightarrow> string \<Rightarrow> json option" where
  "importProgress parse jsonString =
     (case parse jsonString of
        None \<Rightarrow> None
      | Some data \<Rightarrow>
          if truthy (Some data) \<and> typeof_object (Some data) then
            if truthy (get_prop data ''history'') \<and> \<not> isArray (get_prop data ''history'')
            then None
            else if truthy (get_prop data ''mistypedKeys'')
                    \<and> \<not> typeof_object (get_prop data ''mistypedKeys'')
            then None
            else Some (JObj
              [(''history'', or_else (get_prop data ''history'') (JArr [])),
               (''mistypedKeys'', or_else (get_prop data ''mistypedKeys'') (JObj []))])
          else None)"

definition exportData ::
  "(json \<Rightarrow> string option) \<Rightarrow> string \<Rightarrow> (json, json) app_state \<Rightarrow> string option" where
  "exportData stringify isoNow st =
     exportProgress stringify isoNow
       [(''history'', history st), (''mistypedKeys'', mistypedKeys st)]"

definition importData ::
  "(string \<Rightarrow> json option) \<Rightarrow> string \<Rightarrow> (json, json) app_state
     \<Rightarrow> bool \<times> (json, json) app_state" where
  "importData parse jsonString st =
     (case importProgress parse jsonString of
        None \<Rightarrow> (False, st)
      | Some data \<Rightarrow>
          let st1 = (case get_prop data ''history'' of
                       None \<Rightarrow> st
                     | Some h \<Rightarrow> if truthy (Some h) then SET_HISTORY h st else st);
              st2 = (case get_prop data ''mistypedKeys'' of
                       None \<Rightarrow> st1
                     | Some m \<Rightarrow> if truthy (Some m) then SET_MISTYPED_KEYS m st1 else st1)
          in (True, st2))"

section \<open>Countdown timer (hooks/useTimer)\<close>

record timer =
  timeRemaining :: int
  isRunning :: bool
  isFinished :: bool

definition useTimer :: "int \<Rightarrow> timer" where
  "useTimer initialSeconds =
     \<lparr>timeRemaining = initialSeconds, isRunning = False, isFinished = False\<rparr>"

definition start :: "timer \<Rightarrow> timer" where
  "start t = (if isRunning t \<or> isFinished t then t else t\<lparr>isRunning := True\<rparr>)"

definition pause :: "timer \<Rightarrow> timer" where
  "pause t = t\<lparr>isRunning := False\<rparr>"

definition reset_timer :: "int \<Rightarrow> timer \<Rightarrow> timer" where
  "reset_timer newTime t = (pause t)\<lparr>timeRemaining := newTime, isFinished := False\<rparr>"

text \<open>
  One firing of the interval callback. The effect installs the interval only while
  \<open>isRunning && timeRemaining > 0\<close>; otherwise nothing fires.
\<close>

definition tick :: "timer \<Rightarrow> timer" where
  "tick t =
     (if isRunning t \<and> timeRemaining t > 0
      then (if timeRemaining t \<le> 1
            then t\<lparr>timeRemaining := 0, isRunning := False, isFinished := True\<rparr>
            else t\<lparr>timeRemaining := timeRemaining t - 1\<rparr>)
      else t)"

fun ticks :: "nat \<Rightarrow> timer \<Rightarrow> timer" where
  "ticks 0 t = t"
| "ticks (Suc n) t = ticks n (tick t)"

text \<open>How often, during \<open>n\<close> ticks, \<open>isFinished\<close> goes from false to true.\<close>

fun finish_count :: "nat \<Rightarrow> timer \<Rightarrow> nat" where
  "finish_count 0 t = 0"
| "finish_count (Suc n) t =
     (if \<not> isFinished t \<and> isFinished (tick t) then 1 else 0) + finish_count n (tick t)"


section \<open>Reachable session states\<close>

text \<open>
  What holds of a session after any sequence of handler calls on the text \<open>txt\<close>: the
  cursor is the number of entries and is within the text, the two counters count the
  correct and the incorrect entries, every entry records the character of the text at its
  position, a moved cursor means a started session, and an incomplete session on a
  non-empty text has its cursor before the end.
\<close>

definition session_ok :: "string \<Rightarrow> session \<Rightarrow> bool" where
  "session_ok txt s \<longleftrightarrow>
     currentIndex s = length (typedChars s)
     \<and> currentIndex s \<le> length txt
     \<and> correctCount s = length (filter correct (typedChars s))
     \<and> errors s = length (filter (\<lambda>e. \<not> correct e) (typedChars s))
     \<and> (\<forall>i. i < length (typedChars s) \<longrightarrow>
            expected (typedChars s ! i) = Some (txt ! i)
            \<and> correct (typedChars s ! i) = (char (typedChars s ! i) = txt ! i))
     \<and> (0 < currentIndex s \<longrightarrow> hasStarted s)
     \<and> (\<not> isComplete s \<and> txt \<noteq> [] \<longrightarrow> currentIndex s < length txt)"

text \<open>A complete session has its cursor at the end of the text.\<close>

definition complete_at_end :: "string \<Rightarrow> session \<Rightarrow> bool" where
  "complete_at_end txt s \<longleftrightarrow> (isComplete s \<longrightarrow> currentIndex s = length txt)"

text \<open>A key event for one printable character, with no modifier held.\<close>

definition char_event :: "char \<Rightarrow> key_event" where
  "char_event c = \<lparr>key = [c], ctrlKey = False, metaKey = False, altKey = False\<rparr>"

definition backspace_event :: key_event where
  "backspace_event = \<lparr>key = ''Backspace'', ctrlKey = False, metaKey = False, altKey = False\<rparr>"

section \<open>Properties of the metrics engine\<close>

lemma ilog2_bounds: "0 < x \<Longrightarrow> 2 powi ilog2 x \<le> x \<and> x < 2 powi (ilog2 x + 1)"
proof (induction x rule: ilog2.induct)
  case (1 x)
  show ?case
  proof (cases "x < 1")
    case True
    with "1.prems" have ih: "2 powi ilog2 (2 * x) \<le> 2 * x \<and> 2 * x < 2 powi (ilog2 (2 * x) + 1)"
      by (intro "1.IH"(1)) simp_all
    have l: "ilog2 x = ilog2 (2 * x) - 1"
      using True "1.prems" by (subst ilog2.simps) simp
    have "(2::rat) powi (ilog2 (2 * x) - 1) = 2 powi ilog2 (2 * x) / 2"
      by (simp add: power_int_diff)
    moreover have "(2::rat) powi (ilog2 (2 * x) + 1) = 2 powi ilog2 (2 * x) * 2"
      by (simp add: power_int_add)
    ultimately show ?thesis using ih by (simp add: l)
  next
    case False
    show ?thesis
    proof (cases "2 \<le> x")
      case True
      with False "1.prems"
      have ih: "2 powi ilog2 (x / 2) \<le> x / 2 \<and> x / 2 < 2 powi (ilog2 (x / 2) + 1)"
        by (intro "1.IH"(2)) simp_all
      have l: "ilog2 x = ilog2 (x / 2) + 1"
        using True False "1.prems" by (subst ilog2.simps) simp
      have "(2::rat) powi (ilog2 (x / 2) + 1 + 1) = 2 powi (ilog2 (x / 2) + 1) * 2"
        by (simp add: power_int_add)
      moreover have "(2::rat) powi (ilog2 (x / 2) + 1) = 2 powi ilog2 (x / 2) * 2"
        by (simp add: power_int_add)
      ultimately show ?thesis using ih by (simp add: l)
    next
      case nt: False
      have "ilog2 x = 0" using nt False "1.prems" by (subst ilog2.simps) simp
      then show ?thesis using nt False by simp
    qed
  qed
qed

lemma ilog2_unique:
  assumes "2 powi k \<le> x" "x < 2 powi (k + 1)"
  shows "ilog2 x = k"
proof -
  have pos: "0 < x" using assms(1) by (rule less_le_trans [rotated]) simp
  note b = ilog2_bounds [OF pos]
  have "\<not> k + 1 \<le> ilog2 x"
  proof
    assume "k + 1 \<le> ilog2 x"
    then have "(2::rat) powi (k + 1) \<le> 2 powi ilog2 x" by (rule power_int_increasing) simp
    with b assms show False by linarith
  qed
  moreover have "\<not> ilog2 x + 1 \<le> k"
  proof
    assume "ilog2 x + 1 \<le> k"
    then have "(2::rat) powi (ilog2 x + 1) \<le> 2 powi k" by (rule power_int_increasing) simp
    with b assms show False by linarith
  qed
  ultimately show ?thesis by linarith
qed















text \<open>
  The rounding is that of the doubles: three correct characters in 48 seconds give a
  quotient just below 0.75, hence 0.7 and not 0.8 words per minute, and 23 correct out of
  80 give 28.7 and not 28.8 percent.
\<close>

lemma calculateWPM_3_48000: "calculateWPM 3 48000 = binary64 (7 / 10)"
  by code_simp

lemma calculateAccuracy_23_80: "calculateAccuracy 23 80 = binary64 (287 / 10)"
  by code_simp

lemma calculateAccuracy_1_2: "calculateAccuracy 1 2 = 50"
  by code_simp




section \<open>Properties of the typing session\<close>

text \<open>
  Claim C2: for the text \<open>ab\<close>, the keystrokes \<open>a\<close> then \<open>x\<close> through
  \<open>handleKeyPress\<close> give status correct at index 0, incorrect at index 1, a complete
  session, one error and an accuracy of 50.
\<close>

theorem scenario_ab_ax:
  "getCharStatus (feedKeys ''ab'' now ''ax'' initial_session) 0 = Correct
   \<and> getCharStatus (feedKeys ''ab'' now ''ax'' initial_session) 1 = Incorrect
   \<and> isComplete (feedKeys ''ab'' now ''ax'' initial_session) = True
   \<and> errors (feedKeys ''ab'' now ''ax'' initial_session) = 1
   \<and> accuracy (feedKeys ''ab'' now ''ax'' initial_session) = 50"
  by (simp add: handleKeyPress_def text_index_def initial_session_def getCharStatus_def
      accuracy_def totalTyped_def Let_def calculateAccuracy_1_2)

section \<open>Properties of the countdown timer\<close>

lemma ticks_add: "ticks (m + n) t = ticks n (ticks m t)"
  by (induction m arbitrary: t) simp_all

lemma ticks_stopped: "\<not> isRunning t \<Longrightarrow> ticks n t = t"
  by (induction n) (simp_all add: tick_def)

lemma finish_count_stopped: "\<not> isRunning t \<Longrightarrow> finish_count n t = 0"
  by (induction n) (simp_all add: tick_def)

lemma ticks_running:
  "isRunning t \<Longrightarrow> \<not> isFinished t \<Longrightarrow> int n < timeRemaining t \<Longrightarrow>
     ticks n t = t\<lparr>timeRemaining := timeRemaining t - int n\<rparr>"
proof (induction n arbitrary: t)
  case 0
  then show ?case by simp
next
  case (Suc n)
  from Suc.prems have "tick t = t\<lparr>timeRemaining := timeRemaining t - 1\<rparr>"
    by (simp add: tick_def)
  moreover have "ticks n (t\<lparr>timeRemaining := timeRemaining t - 1\<rparr>)
      = (t\<lparr>timeRemaining := timeRemaining t - 1\<rparr>)\<lparr>timeRemaining := timeRemaining (t\<lparr>timeRemaining := timeRemaining t - 1\<rparr>) - int n\<rparr>"
    using Suc.prems by (intro Suc.IH) simp_all
  ultimately show ?case by simp
qed

lemma finish_count_running:
  "isRunning t \<Longrightarrow> \<not> isFinished t \<Longrightarrow> int n < timeRemaining t \<Longrightarrow> finish_count n t = 0"
proof (induction n arbitrary: t)
  case 0
  then show ?case by simp
next
  case (Suc n)
  from Suc.prems have tk: "tick t = t\<lparr>timeRemaining := timeRemaining t - 1\<rparr>"
    by (simp add: tick_def)
  have "finish_count n (tick t) = 0"
    unfolding tk using Suc.prems by (intro Suc.IH) simp_all
  then show ?case using Suc.prems by (simp add: tk)
qed

lemma finish_count_add: "finish_count (m + n) t = finish_count m t + finish_count n (ticks m t)"
  by (induction m arbitrary: t) simp_all

lemma ticks_expire:
  assumes "isRunning t" "\<not> isFinished t" "timeRemaining t = int (Suc d)"
  shows "ticks (Suc d) t = t\<lparr>timeRemaining := 0, isRunning := False, isFinished := True\<rparr>"
    and "finish_count (Suc d) t = 1"
proof -
  have a: "ticks d t = t\<lparr>timeRemaining := 1\<rparr>"
    using ticks_running [of t d] assms by simp
  have "ticks (d + 1) t = ticks 1 (ticks d t)" by (rule ticks_add)
  then show "ticks (Suc d) t = t\<lparr>timeRemaining := 0, isRunning := False, isFinished := True\<rparr>"
    using assms by (simp add: a tick_def)
  have "finish_count (d + 1) t = finish_count d t + finish_count 1 (ticks d t)"
    by (rule finish_count_add)
  moreover have "finish_count d t = 0" using finish_count_running [of t d] assms by simp
  ultimately show "finish_count (Suc d) t = 1" using assms by (simp add: a tick_def)
qed


text \<open>
  Claim C8: a timer started at a duration of \<open>D > 0\<close> ticks has, after \<open>D\<close> ticks,
  no time remaining and is finished; before that it is not finished and counts down by
  one per tick; however many ticks follow, the change to finished has happened exactly
  once and the state no longer moves; the remaining time is never negative; and
  \<open>start\<close> on a running or finished timer changes nothing.
\<close>

theorem countdown_finishes_once:
  assumes "0 < D"
  shows "timeRemaining (ticks D (start (useTimer (int D)))) = 0
       \<and> isFinished (ticks D (start (useTimer (int D))))
       \<and> (\<forall>n. n < D \<longrightarrow> \<not> isFinished (ticks n (start (useTimer (int D))))
                 \<and> timeRemaining (ticks n (start (useTimer (int D)))) = int D - int n)
       \<and> (\<forall>n. D \<le> n \<longrightarrow> finish_count n (start (useTimer (int D))) = 1
                 \<and> ticks n (start (useTimer (int D))) = ticks D (start (useTimer (int D))))
       \<and> (\<forall>n. 0 \<le> timeRemaining (ticks n (start (useTimer (int D)))))
       \<and> (\<forall>t. isRunning t \<or> isFinished t \<longrightarrow> start t = t)"
proof -
  define t0 where "t0 = start (useTimer (int D))"
  obtain d where D: "D = Suc d" using assms by (cases D) auto
  have t0: "isRunning t0" "\<not> isFinished t0" "timeRemaining t0 = int (Suc d)"
    by (simp_all add: t0_def start_def useTimer_def D)
  have fin: "ticks D t0 = t0\<lparr>timeRemaining := 0, isRunning := False, isFinished := True\<rparr>"
    and cnt: "finish_count D t0 = 1"
    using ticks_expire [OF t0] by (simp_all add: D)
  have before: "ticks n t0 = t0\<lparr>timeRemaining := int D - int n\<rparr>" if "n < D" for n
    using ticks_running [of t0 n] t0 that by (simp add: D)
  have after: "ticks n t0 = ticks D t0 \<and> finish_count n t0 = 1" if "D \<le> n" for n
  proof -
    define k where "k = n - D"
    have n: "n = D + k" using that by (simp add: k_def)
    have "ticks n t0 = ticks k (ticks D t0)" unfolding n by (rule ticks_add)
    moreover have "finish_count n t0 = finish_count D t0 + finish_count k (ticks D t0)"
      unfolding n by (rule finish_count_add)
    moreover have "\<not> isRunning (ticks D t0)" by (simp add: fin)
    ultimately show ?thesis
      by (simp add: cnt ticks_stopped finish_count_stopped)
  qed
  have nonneg: "0 \<le> timeRemaining (ticks n t0)" for n
  proof (cases "n < D")
    case True
    then show ?thesis by (simp add: before)
  next
    case False
    then have "D \<le> n" by simp
    from after [OF this] have "ticks n t0 = ticks D t0" ..
    then show ?thesis by (simp add: fin)
  qed
  have st: "start t = t" if "isRunning t \<or> isFinished t" for t
    using that by (simp add: start_def)
  have c1: "timeRemaining (ticks D t0) = 0 \<and> isFinished (ticks D t0)" by (simp add: fin)
  have c2: "\<not> isFinished (ticks n t0) \<and> timeRemaining (ticks n t0) = int D - int n" if "n < D" for n
    using that t0 by (simp add: before)
  have c3: "finish_count n t0 = 1 \<and> ticks n t0 = ticks D t0" if "D \<le> n" for n
    using after [OF that] by (rule_tac conjI) (erule conjunct2, erule conjunct1)
  show ?thesis
    unfolding t0_def [symmetric]
  proof (intro conjI allI impI)
    show "timeRemaining (ticks D t0) = 0" using c1 ..
    show "isFinished (ticks D t0)" using c1 ..
    show "\<not> isFinished (ticks n t0)" if "n < D" for n using c2 [OF that] ..
    show "timeRemaining (ticks n t0) = int D - int n" if "n < D" for n using c2 [OF that] ..
    show "finish_count n t0 = 1" if "D \<le> n" for n using c3 [OF that] ..
    show "ticks n t0 = ticks D t0" if "D \<le> n" for n using c3 [OF that] ..
    show "0 \<le> timeRemaining (ticks n t0)" for n by (rule nonneg)
    show "start t = t" if "isRunning t \<or> isFinished t" for t using that by (rule st)
  qed
qed

theorem countdown_finishes_once_witness:
  "timeRemaining (ticks 3 (start (useTimer (int 3)))) = 0
   \<and> isFinished (ticks 3 (start (useTimer (int 3))))
   \<and> \<not> isFinished (ticks 2 (start (useTimer (int 3))))
   \<and> timeRemaining (ticks 2 (start (useTimer (int 3)))) = 1
   \<and> finish_count 5 (start (useTimer (int 3))) = 1
   \<and> 0 \<le> timeRemaining (ticks 7 (start (useTimer (int 3))))"
proof -
  have h: "0 < (3::nat)" by simp
  note th = countdown_finishes_once [OF h]
  have a: "timeRemaining (ticks 3 (start (useTimer (int 3)))) = 0"
    and b: "isFinished (ticks 3 (start (useTimer (int 3))))"
    using th by blast+
  have c: "\<not> isFinished (ticks 2 (start (useTimer (int 3))))
      \<and> timeRemaining (ticks 2 (start (useTimer (int 3)))) = int 3 - int 2"
    using th [THEN conjunct2, THEN conjunct2, THEN conjunct1, rule_format, of 2] by simp
  have d: "finish_count 5 (start (useTimer (int 3))) = 1"
    using th [THEN conjunct2, THEN conjunct2, THEN conjunct2, THEN conjunct1, rule_format, of 5]
    by simp
  have e: "0 \<le> timeRemaining (ticks 7 (start (useTimer (int 3))))"
    using th [THEN conjunct2, THEN conjunct2, THEN conjunct2, THEN conjunct2, THEN conjunct1,
      rule_format, of 7] .
  from a b c d e show ?thesis by simp
qed

section \<open>Backspace in test mode\<close>

text \<open>
  Claim C9: in test mode a backspace event leaves the whole session state unchanged.
  \<open>handleBackspace\<close> returns at once when the mode is not learning, and \<open>TestMode\<close>
  passes no \<open>onBackspace\<close> callback, so that the key never reaches the session.
\<close>

theorem test_mode_backspace_ignored:
  "handleBackspace Test s = (s, [])
   \<and> TestMode_keydown txt timerFinished showResults now (ev\<lparr>key := ''Backspace''\<rparr>) s = s"
  by (simp add: handleBackspace_def TestMode_keydown_def handleKeyDown_def)

theorem test_mode_backspace_ignored_witness:
  "handleBackspace Test (feedKeys ''ab'' 0 ''a'' initial_session)
     = (feedKeys ''ab'' 0 ''a'' initial_session, [])
   \<and> currentIndex (feedKeys ''ab'' 0 ''a'' initial_session) = 1
   \<and> TestMode_keydown ''ab'' False False 1
        \<lparr>key = ''Backspace'', ctrlKey = False, metaKey = False, altKey = False\<rparr>
        (feedKeys ''ab'' 0 ''a'' initial_session)
     = feedKeys ''ab'' 0 ''a'' initial_session"
  using test_mode_backspace_ignored [of "feedKeys ''ab'' 0 ''a'' initial_session" "''ab''" False False 1
      "\<lparr>key = ''Backspace'', ctrlKey = False, metaKey = False, altKey = False\<rparr>"]
  by (simp add: handleKeyPress_def text_index_def initial_session_def)

section \<open>The mistyped-key tally\<close>







lemma mistypedKeys_session_calls [simp]:
  "mistypedKeys (dispatch_call startSession st) = mistypedKeys st"
  "mistypedKeys (dispatch_call endSession st) = mistypedKeys st"
  "mistypedKeys (dispatch_call resetSession st) = mistypedKeys st"
  by (simp_all add: dispatch_call_def START_SESSION_def END_SESSION_def RESET_SESSION_def)





section \<open>The session history\<close>

lemma take_append_take: "take n (xs @ take n ys) = take n (xs @ ys)"
  by simp

lemma history_add_all:
  "rs \<noteq> [] \<Longrightarrow> history (add_all rs st) = take 100 (rev rs @ history st)"
proof (induction rs arbitrary: st)
  case Nil
  then show ?case by simp
next
  case (Cons r rs)
  show ?case
  proof (cases "rs = []")
    case True
    then show ?thesis by (simp add: ADD_HISTORY_def)
  next
    case False
    have h: "history (ADD_HISTORY r st) = take 100 (r # history st)"
      by (simp add: ADD_HISTORY_def del: take_Cons_numeral)
    from Cons.IH [OF False, of "ADD_HISTORY r st"]
    have "history (add_all rs (ADD_HISTORY r st)) = take 100 (rev rs @ take 100 (r # history st))"
      by (simp only: h)
    also have "\<dots> = take 100 (rev rs @ r # history st)"
      by (rule take_append_take)
    finally show ?thesis by simp
  qed
qed

text \<open>
  Claim C10: \<open>ADD_HISTORY\<close> puts the new record in front and keeps the first 100
  entries, so that after every recorded session the history has at most 100 records,
  the newest first, however many sessions are recorded.
\<close>

theorem history_at_most_100:
  "history (ADD_HISTORY r st) = take 100 (r # history st)
   \<and> hd (history (ADD_HISTORY r st)) = r
   \<and> length (history (ADD_HISTORY r st)) \<le> 100
   \<and> (rs \<noteq> [] \<longrightarrow> history (add_all rs st) = take 100 (rev rs @ history st)
                  \<and> length (history (add_all rs st)) \<le> 100)
   \<and> (length (history st) \<le> 100 \<longrightarrow> length (history (add_all rs st)) \<le> 100)"
proof -
  have a: "history (ADD_HISTORY r st) = take 100 (r # history st)"
    by (simp add: ADD_HISTORY_def)
  have b: "hd (history (ADD_HISTORY r st)) = r"
    by (simp add: ADD_HISTORY_def)
  have c: "length (history (ADD_HISTORY r st)) \<le> 100"
    by (simp add: ADD_HISTORY_def)
  have d: "history (add_all rs st) = take 100 (rev rs @ history st)
      \<and> length (history (add_all rs st)) \<le> 100" if "rs \<noteq> []"
    using history_add_all [OF that, of st] by simp
  have e: "length (history (add_all rs st)) \<le> 100" if "length (history st) \<le> 100"
  proof (cases "rs = []")
    case True
    then show ?thesis using that by simp
  next
    case False
    then show ?thesis using d by simp
  qed
  from a b c d e show ?thesis by blast
qed

theorem history_at_most_100_witness:
  "history (ADD_HISTORY (0::nat) \<lparr>isSessionActive = False, history = [1, 2], mistypedKeys = ()\<rparr>)
     = [0, 1, 2]
   \<and> history (add_all [5, 6::nat] \<lparr>isSessionActive = False, history = [1, 2], mistypedKeys = ()\<rparr>)
     = [6, 5, 1, 2]
   \<and> length (history (add_all [5, 6::nat]
        \<lparr>isSessionActive = False, history = [1, 2], mistypedKeys = ()\<rparr>)) \<le> 100"
  using history_at_most_100 [of "0::nat"
      "\<lparr>isSessionActive = False, history = [1, 2], mistypedKeys = ()\<rparr>" "[5, 6]"]
  by simp

section \<open>Export and import\<close>

lemma importProgress_exported:
  "parse str = Some (JObj [(''history'', JArr hs), (''mistypedKeys'', JObj mk),
      (''exportedAt'', JStr isoNow), (''version'', JStr ''1.0'')]) \<Longrightarrow>
   importProgress parse str = Some (JObj [(''history'', JArr hs), (''mistypedKeys'', JObj mk)])"
  by (simp add: importProgress_def or_else_def)

lemma exportData_object:
  "history st = JArr hs \<Longrightarrow> mistypedKeys st = JObj mk \<Longrightarrow>
   exportData stringify isoNow st
     = stringify (JObj [(''history'', JArr hs), (''mistypedKeys'', JObj mk),
         (''exportedAt'', JStr isoNow), (''version'', JStr ''1.0'')])"
  by (simp add: exportData_def exportProgress_def)

lemma importData_rejected: "importProgress parse s = None \<Longrightarrow> importData parse s st = (False, st)"
  by (simp add: importData_def)

text \<open>
  Claim C7, as stated, asks that an import whose \<open>mistypedKeys\<close> field is present but
  not a flat mapping fail and leave the state alone. \<open>importProgress\<close> only checks that
  the field has type object: a nested object is accepted, and it replaces the tally (the
  absent \<open>history\<close> field also resets the history to the empty list).
\<close>

theorem import_accepts_nested_mistypedKeys:
  \<open>importData
     (\<lambda>s. if s = ''{"mistypedKeys":{"a":{"b":1}}}''
          then Some (JObj [(''mistypedKeys'', JObj [(''a'', JObj [(''b'', JNum 1)])])])
          else None)
     ''{"mistypedKeys":{"a":{"b":1}}}''
     \<lparr>isSessionActive = False, history = JArr [JObj [(''wpm'', JNum 40)]],
      mistypedKeys = JObj [(''q'', JNum 2)]\<rparr>
   = (True, \<lparr>isSessionActive = False, history = JArr [],
             mistypedKeys = JObj [(''a'', JObj [(''b'', JNum 1)])]\<rparr>)\<close>
  by (simp add: importData_def importProgress_def or_else_def SET_HISTORY_def
      SET_MISTYPED_KEYS_def)

text \<open>
  Claim C7 (amended): when \<open>JSON.parse\<close> inverts \<open>JSON.stringify\<close> on the exported
  string, importing what \<open>exportData\<close> produced from a state whose history is a list and
  whose tally is an object sets both fields of the importing state to exactly these
  values. An import fails, and leaves the state as it was, when the string does not parse,
  when its \<open>history\<close> field is truthy and not an array, and when its \<open>mistypedKeys\<close>
  field is truthy and not of type object.
\<close>

theorem import_export_round_trip:
  "((\<forall>v. stringify v = Some str \<longrightarrow> parse str = Some v)
      \<and> history st = JArr hs \<and> mistypedKeys st = JObj mk
      \<and> exportData stringify isoNow st = Some str
    \<longrightarrow> importData parse str st' = (True, st'\<lparr>history := JArr hs, mistypedKeys := JObj mk\<rparr>))
   \<and> (parse s = None \<longrightarrow> importData parse s st' = (False, st'))
   \<and> (parse s = Some d \<and> truthy (get_prop d ''history'') \<and> \<not> isArray (get_prop d ''history'')
        \<longrightarrow> importData parse s st' = (False, st'))
   \<and> (parse s = Some d \<and> truthy (get_prop d ''mistypedKeys'')
          \<and> \<not> typeof_object (get_prop d ''mistypedKeys'')
        \<longrightarrow> importData parse s st' = (False, st'))"
proof -
  have a: "importData parse str st' = (True, st'\<lparr>history := JArr hs, mistypedKeys := JObj mk\<rparr>)"
    if rt: "\<forall>v. stringify v = Some str \<longrightarrow> parse str = Some v"
      and h: "history st = JArr hs" and m: "mistypedKeys st = JObj mk"
      and e: "exportData stringify isoNow st = Some str"
  proof -
    from e have "stringify (JObj [(''history'', JArr hs), (''mistypedKeys'', JObj mk),
         (''exportedAt'', JStr isoNow), (''version'', JStr ''1.0'')]) = Some str"
      by (simp add: exportData_object [OF h m])
    with rt have "parse str = Some (JObj [(''history'', JArr hs), (''mistypedKeys'', JObj mk),
         (''exportedAt'', JStr isoNow), (''version'', JStr ''1.0'')])"
      by blast
    then have "importProgress parse str
        = Some (JObj [(''history'', JArr hs), (''mistypedKeys'', JObj mk)])"
      by (rule importProgress_exported)
    then show ?thesis
      by (simp add: importData_def SET_HISTORY_def SET_MISTYPED_KEYS_def)
  qed
  have b: "importData parse s st' = (False, st')" if "parse s = None"
    using that by (simp add: importData_rejected importProgress_def)
  have c: "importData parse s st' = (False, st')"
    if "parse s = Some d" "truthy (get_prop d ''history'')" "\<not> isArray (get_prop d ''history'')"
    using that by (simp add: importData_rejected importProgress_def)
  have d: "importData parse s st' = (False, st')"
    if "parse s = Some d" "truthy (get_prop d ''mistypedKeys'')"
       "\<not> typeof_object (get_prop d ''mistypedKeys'')"
    using that by (simp add: importData_rejected importProgress_def)
  from a b c d show ?thesis by blast
qed

theorem import_export_round_trip_witness:
  \<open>importData
     (\<lambda>s. if s = ''{"history":[1],"mistypedKeys":{"a":2},"exportedAt":"t","version":"1.0"}''
          then Some (JObj [(''history'', JArr [JNum 1]), (''mistypedKeys'', JObj [(''a'', JNum 2)]),
                 (''exportedAt'', JStr ''t''), (''version'', JStr ''1.0'')])
          else None)
     ''{"history":[1],"mistypedKeys":{"a":2},"exportedAt":"t","version":"1.0"}''
     \<lparr>isSessionActive = True, history = JArr [], mistypedKeys = JObj []\<rparr>
   = (True, \<lparr>isSessionActive = True, history = JArr [JNum 1],
             mistypedKeys = JObj [(''a'', JNum 2)]\<rparr>)
   \<and> importData
     (\<lambda>s. if s = ''{"history":5}'' then Some (JObj [(''history'', JNum 5)]) else None)
     ''{"history":5}''
     \<lparr>isSessionActive = True, history = JArr [JNum 1], mistypedKeys = JObj []\<rparr>
   = (False, \<lparr>isSessionActive = True, history = JArr [JNum 1], mistypedKeys = JObj []\<rparr>)\<close>
proof -
  let ?T = \<open>''{"history":[1],"mistypedKeys":{"a":2},"exportedAt":"t","version":"1.0"}''\<close>
  let ?V = "JObj [(''history'', JArr [JNum 1]), (''mistypedKeys'', JObj [(''a'', JNum 2)]),
                 (''exportedAt'', JStr ''t''), (''version'', JStr ''1.0'')]"
  let ?stringify = "\<lambda>v. if v = ?V then Some ?T else None"
  let ?parse = "\<lambda>s. if s = ?T then Some ?V else None"
  let ?st = "\<lparr>isSessionActive = False, history = JArr [JNum 1],
      mistypedKeys = JObj [(''a'', JNum 2)]\<rparr>"
  have h: "(\<forall>v. ?stringify v = Some ?T \<longrightarrow> ?parse ?T = Some v)
      \<and> history ?st = JArr [JNum 1] \<and> mistypedKeys ?st = JObj [(''a'', JNum 2)]
      \<and> exportData ?stringify ''t'' ?st = Some ?T"
    by (simp add: exportData_def exportProgress_def)
  have a: "importData ?parse ?T \<lparr>isSessionActive = True, history = JArr [], mistypedKeys = JObj []\<rparr>
      = (True, \<lparr>isSessionActive = True, history = JArr [JNum 1],
           mistypedKeys = JObj [(''a'', JNum 2)]\<rparr>)"
    using import_export_round_trip [where stringify = "?stringify" and parse = "?parse"
        and str = "?T" and st = "?st" and isoNow = "''t''" and hs = "[JNum 1]"
        and mk = "[(''a'', JNum 2)]"
        and st' = "\<lparr>isSessionActive = True, history = JArr [], mistypedKeys = JObj []\<rparr>",
        THEN conjunct1, rule_format, OF h]
    by simp
  let ?parse5 = \<open>\<lambda>s. if s = ''{"history":5}'' then Some (JObj [(''history'', JNum 5)]) else None\<close>
  have h5: \<open>?parse5 ''{"history":5}'' = Some (JObj [(''history'', JNum 5)])
      \<and> truthy (get_prop (JObj [(''history'', JNum 5)]) ''history'')
      \<and> \<not> isArray (get_prop (JObj [(''history'', JNum 5)]) ''history'')\<close>
    by simp
  have b: \<open>importData ?parse5 ''{"history":5}''
        \<lparr>isSessionActive = True, history = JArr [JNum 1], mistypedKeys = JObj []\<rparr>
      = (False, \<lparr>isSessionActive = True, history = JArr [JNum 1], mistypedKeys = JObj []\<rparr>)\<close>
    by (rule import_export_round_trip [where parse = "?parse5"
          and d = "JObj [(''history'', JNum 5)]", THEN conjunct2, THEN conjunct2, THEN conjunct1,
          rule_format, OF h5])
  from a b show ?thesis by (rule conjI)
qed

section \<open>Invariants of the typing session\<close>

lemma handleKeyPress_ignored:
  "isComplete s \<or> txt = [] \<Longrightarrow> handleKeyPress txt now k s = (s, [])"
  by (simp add: handleKeyPress_def)

lemma handleKeyPress_accepted:
  assumes "\<not> isComplete s" "txt \<noteq> []"
  shows "fst (handleKeyPress txt now k s) =
     s\<lparr>hasStarted := True,
       startTimeRef := (if hasStarted s then startTimeRef s else Some now),
       typedChars := typedChars s @
         [\<lparr>char = k, expected = text_index txt (currentIndex s),
           correct = (Some k = text_index txt (currentIndex s))\<rparr>],
       correctCount :=
         (if Some k = text_index txt (currentIndex s) then correctCount s + 1 else correctCount s),
       errors := (if Some k = text_index txt (currentIndex s) then errors s else errors s + 1),
       currentIndex := currentIndex s + 1,
       isComplete := (length txt \<le> currentIndex s + 1)\<rparr>"
  using assms by (cases s) (simp add: handleKeyPress_def Let_def)

lemma handleBackspace_ignored:
  "m \<noteq> Learning \<or> currentIndex s = 0 \<Longrightarrow> handleBackspace m s = (s, [])"
  by (simp add: handleBackspace_def)

lemma dec0_pred: "dec0 n = n - 1"
  by (simp add: dec0_def)

lemma handleBackspace_accepted:
  assumes "0 < currentIndex s" "typedChars s \<noteq> []"
  shows "fst (handleBackspace Learning s) =
     s\<lparr>currentIndex := currentIndex s - 1,
       typedChars := butlast (typedChars s),
       errors := (if correct (last (typedChars s)) then errors s else errors s - 1),
       correctCount :=
         (if correct (last (typedChars s)) then correctCount s - 1 else correctCount s)\<rparr>"
  using assms by (cases s) (simp add: handleBackspace_def Let_def dec0_pred)

lemma session_ok_initial: "session_ok txt initial_session"
  by (simp add: session_ok_def initial_session_def)

lemma complete_at_end_initial: "complete_at_end txt initial_session"
  by (simp add: complete_at_end_def initial_session_def)

lemma session_ok_handleKeyPress:
  assumes "session_ok txt s"
  shows "session_ok txt (fst (handleKeyPress txt now k s))"
proof (cases "isComplete s \<or> txt = []")
  case True
  then show ?thesis using assms by (simp add: handleKeyPress_ignored)
next
  case False
  then have lt: "currentIndex s < length txt" and len: "currentIndex s = length (typedChars s)"
    using assms by (simp_all add: session_ok_def)
  have ti: "text_index txt (currentIndex s) = Some (txt ! currentIndex s)"
    using lt by (simp add: text_index_def)
  from False have acc: "\<not> isComplete s" "txt \<noteq> []" by simp_all
  show ?thesis
    unfolding handleKeyPress_accepted [OF acc] ti
    using assms lt len
    by (auto simp: session_ok_def nth_append less_Suc_eq)
qed

lemma complete_at_end_handleKeyPress:
  assumes "session_ok txt s" "complete_at_end txt s"
  shows "complete_at_end txt (fst (handleKeyPress txt now k s))"
proof (cases "isComplete s \<or> txt = []")
  case True
  then show ?thesis using assms by (simp add: handleKeyPress_ignored)
next
  case False
  then have lt: "currentIndex s < length txt"
    using assms by (simp_all add: session_ok_def)
  from False have acc: "\<not> isComplete s" "txt \<noteq> []" by simp_all
  show ?thesis
    unfolding handleKeyPress_accepted [OF acc]
    using lt by (auto simp: complete_at_end_def)
qed

lemma filter_butlast_length:
  "xs \<noteq> [] \<Longrightarrow> length (filter P (butlast xs))
     = (if P (last xs) then length (filter P xs) - 1 else length (filter P xs))"
  by (induction xs rule: rev_induct) simp_all

lemma session_ok_handleBackspace:
  assumes "session_ok txt s"
  shows "session_ok txt (fst (handleBackspace m s))"
proof (cases "m \<noteq> Learning \<or> currentIndex s = 0")
  case True
  then show ?thesis using assms by (simp add: handleBackspace_ignored)
next
  case False
  then have m: "m = Learning" and pos: "0 < currentIndex s" by simp_all
  have ne: "typedChars s \<noteq> []" using assms pos by (auto simp: session_ok_def)
  show ?thesis
    unfolding m handleBackspace_accepted [OF pos ne]
    using assms pos ne
    by (auto simp: session_ok_def nth_butlast filter_butlast_length)
qed


lemma session_ok_apply_call:
  "session_ok txt s \<Longrightarrow> session_ok txt (fst (apply_call m txt now c s))"
  by (cases c) (simp_all add: apply_call_def session_ok_handleKeyPress session_ok_handleBackspace)

lemma session_ok_run_calls:
  "session_ok txt s \<Longrightarrow> session_ok txt (run_calls m txt cs s)"
  by (induction cs arbitrary: s) (simp_all add: session_ok_apply_call)

lemma complete_at_end_apply_call:
  assumes "session_ok txt s" "complete_at_end txt s" "m = Test \<or> \<not> isComplete s"
  shows "complete_at_end txt (fst (apply_call m txt now c s))"
proof (cases c)
  case (onKeyPress k)
  then show ?thesis using assms by (simp add: apply_call_def complete_at_end_handleKeyPress)
next
  case onBackspace
  show ?thesis
  proof (cases "m \<noteq> Learning \<or> currentIndex s = 0")
    case True
    then show ?thesis using assms onBackspace by (simp add: apply_call_def handleBackspace_ignored)
  next
    case False
    then have m: "m = Learning" and pos: "0 < currentIndex s" by simp_all
    with assms have nc: "\<not> isComplete s" by simp
    have ne: "typedChars s \<noteq> []" using assms pos by (auto simp: session_ok_def)
    show ?thesis
      unfolding onBackspace apply_call_def m input_call.case handleBackspace_accepted [OF pos ne]
      using nc by (simp add: complete_at_end_def)
  qed
qed

lemma complete_at_end_run_Test:
  "session_ok txt s \<Longrightarrow> complete_at_end txt s \<Longrightarrow> complete_at_end txt (run_calls Test txt cs s)"
  by (induction cs arbitrary: s) (simp_all add: session_ok_apply_call complete_at_end_apply_call)

lemma handleKeyDown_length: "length (handleKeyDown en kp bs ev) \<le> Suc 0"
  by (auto simp: handleKeyDown_def)

lemma handleKeyDown_disabled: "handleKeyDown False kp bs ev = []"
  by (simp add: handleKeyDown_def)

lemma LearningMode_keydown_complete: "isComplete s \<Longrightarrow> LearningMode_keydown txt now ev s = s"
  by (simp add: LearningMode_keydown_def handleKeyDown_disabled)

lemma TestMode_keydown_complete: "isComplete s \<Longrightarrow> TestMode_keydown txt tf sr now ev s = s"
  by (simp add: TestMode_keydown_def handleKeyDown_disabled)

lemma run_calls_one_event:
  assumes "session_ok txt s" "complete_at_end txt s" "length cs \<le> Suc 0" "m = Test \<or> \<not> isComplete s"
  shows "session_ok txt (run_calls m txt cs s) \<and> complete_at_end txt (run_calls m txt cs s)"
proof (cases cs)
  case Nil
  then show ?thesis using assms by simp
next
  case (Cons c cs')
  with assms have "cs' = []" by simp
  then show ?thesis
    using assms Cons by (simp add: session_ok_apply_call complete_at_end_apply_call)
qed

lemma LearningMode_keydown_ok:
  assumes "session_ok txt s" "complete_at_end txt s"
  shows "session_ok txt (LearningMode_keydown txt now ev s)
       \<and> complete_at_end txt (LearningMode_keydown txt now ev s)"
proof (cases "isComplete s")
  case True
  then show ?thesis using assms by (simp add: LearningMode_keydown_complete)
next
  case False
  show ?thesis
    unfolding LearningMode_keydown_def
    by (rule run_calls_one_event [OF assms]) (simp_all add: handleKeyDown_length False)
qed

lemma TestMode_keydown_ok:
  assumes "session_ok txt s" "complete_at_end txt s"
  shows "session_ok txt (TestMode_keydown txt tf sr now ev s)
       \<and> complete_at_end txt (TestMode_keydown txt tf sr now ev s)"
  unfolding TestMode_keydown_def
  by (rule run_calls_one_event [OF assms]) (simp_all add: handleKeyDown_length)

lemma LearningMode_run_ok:
  "session_ok txt s \<Longrightarrow> complete_at_end txt s \<Longrightarrow>
   session_ok txt (LearningMode_run txt evs s) \<and> complete_at_end txt (LearningMode_run txt evs s)"
  by (induction evs arbitrary: s) (simp_all add: LearningMode_keydown_ok)

lemma TestMode_run_ok:
  "session_ok txt s \<Longrightarrow> complete_at_end txt s \<Longrightarrow>
   session_ok txt (TestMode_run txt evs s) \<and> complete_at_end txt (TestMode_run txt evs s)"
  by (induction evs arbitrary: s) (simp_all add: TestMode_keydown_ok)

lemma session_ok_counts:
  assumes "session_ok txt s"
  shows "correctCount s + errors s = currentIndex s" "currentIndex s = length (typedChars s)"
proof -
  show "currentIndex s = length (typedChars s)" using assms by (simp add: session_ok_def)
  have "length (filter correct (typedChars s)) + length (filter (\<lambda>e. \<not> correct e) (typedChars s))
      = length (typedChars s)"
    by (rule sum_length_filter_compl)
  then show "correctCount s + errors s = currentIndex s"
    using assms by (simp add: session_ok_def)
qed

lemmas session_eval =
  apply_call_def handleKeyPress_def handleBackspace_def text_index_def initial_session_def
  Let_def dec0_def LearningMode_keydown_def TestMode_keydown_def handleKeyDown_def
  char_event_def backspace_event_def

text \<open>
  Claim C1, as stated, covers every interleaving of the two handlers. In learning mode
  \<open>handleBackspace\<close> does not look at \<open>isComplete\<close>: called on a complete session it
  moves the cursor back, so the session is complete with its cursor before the end of the
  text, and a key event has changed a complete session.
\<close>

theorem backspace_after_completion:
  "isComplete (run_calls Learning ''a'' [(0, onKeyPress CHR ''a''), (1, onBackspace)] initial_session)
   \<and> currentIndex
        (run_calls Learning ''a'' [(0, onKeyPress CHR ''a''), (1, onBackspace)] initial_session)
      \<noteq> length ''a''
   \<and> isComplete (run_calls Learning ''a'' [(0, onKeyPress CHR ''a'')] initial_session)
   \<and> fst (handleBackspace Learning
        (run_calls Learning ''a'' [(0, onKeyPress CHR ''a'')] initial_session))
      \<noteq> run_calls Learning ''a'' [(0, onKeyPress CHR ''a'')] initial_session"
  by (simp add: apply_call_def handleKeyPress_def handleBackspace_def text_index_def
      initial_session_def Let_def dec0_def)

text \<open>
  Claim C1 (amended). After every interleaving of \<open>handleKeyPress\<close> and
  \<open>handleBackspace\<close> calls from the initial session (\<open>s\<close>), the two counters add up
  to the cursor, the cursor is the number of entries, and \<open>handleKeyPress\<close> does not
  change a complete session; in test mode a complete session has its cursor at the end of
  the text and \<open>handleBackspace\<close> does not change it either. After every sequence of key
  events delivered by \<open>LearningMode\<close> (\<open>l\<close>) or by \<open>TestMode\<close> (\<open>t\<close>), whose
  keyboard hook is enabled only while the session is not complete, all four hold: the
  counters add up to the cursor, the cursor is the number of entries, a complete session
  has its cursor at the end of the text, and no further key event changes it. \<open>reset\<close>
  gives back the initial session.
\<close>

theorem session_invariants:
  assumes "s = run_calls m txt cs initial_session"
    and "l = LearningMode_run txt evs initial_session"
    and "t = TestMode_run txt tevs initial_session"
  shows "correctCount s + errors s = currentIndex s
       \<and> currentIndex s = length (typedChars s)
       \<and> (isComplete s \<longrightarrow> handleKeyPress txt now k s = (s, []))
       \<and> (m = Test \<and> isComplete s \<longrightarrow>
            currentIndex s = length txt \<and> handleBackspace m s = (s, []))
       \<and> correctCount l + errors l = currentIndex l
       \<and> currentIndex l = length (typedChars l)
       \<and> (isComplete l \<longrightarrow>
            currentIndex l = length txt \<and> LearningMode_keydown txt now ev l = l)
       \<and> correctCount t + errors t = currentIndex t
       \<and> currentIndex t = length (typedChars t)
       \<and> (isComplete t \<longrightarrow>
            currentIndex t = length txt \<and> TestMode_keydown txt tf sr now ev t = t)
       \<and> fst (reset s) = initial_session"
proof -
  have rs: "fst (reset s) = initial_session"
    by (cases s) (simp add: reset_def initial_session_def)
  have s: "session_ok txt s"
    unfolding assms by (rule session_ok_run_calls [OF session_ok_initial])
  have l: "session_ok txt l \<and> complete_at_end txt l"
    unfolding assms by (rule LearningMode_run_ok [OF session_ok_initial complete_at_end_initial])
  have t: "session_ok txt t \<and> complete_at_end txt t"
    unfolding assms by (rule TestMode_run_ok [OF session_ok_initial complete_at_end_initial])
  have s3: "handleKeyPress txt now k s = (s, [])" if "isComplete s"
    using that by (simp add: handleKeyPress_ignored)
  have s4: "currentIndex s = length txt \<and> handleBackspace m s = (s, [])"
    if "m = Test \<and> isComplete s"
  proof -
    have "complete_at_end txt s"
      using that unfolding assms
      by (simp add: complete_at_end_run_Test [OF session_ok_initial complete_at_end_initial])
    then show ?thesis using that by (simp add: complete_at_end_def handleBackspace_ignored)
  qed
  have l3: "currentIndex l = length txt \<and> LearningMode_keydown txt now ev l = l" if "isComplete l"
    using that l by (simp add: complete_at_end_def LearningMode_keydown_complete)
  have t3: "currentIndex t = length txt \<and> TestMode_keydown txt tf sr now ev t = t" if "isComplete t"
    using that t by (simp add: complete_at_end_def TestMode_keydown_complete)
  from session_ok_counts [OF s] session_ok_counts [OF l [THEN conjunct1]]
    session_ok_counts [OF t [THEN conjunct1]] s3 s4 l3 t3 rs
  show ?thesis by blast
qed

theorem session_invariants_witness:
  "isComplete (run_calls Test ''ab''
       [(0, onKeyPress CHR ''a''), (1, onBackspace), (2, onKeyPress CHR ''x'')] initial_session)
   \<and> currentIndex (run_calls Test ''ab''
       [(0, onKeyPress CHR ''a''), (1, onBackspace), (2, onKeyPress CHR ''x'')] initial_session)
     = length ''ab''
   \<and> handleKeyPress ''ab'' 9 CHR ''z'' (run_calls Test ''ab''
       [(0, onKeyPress CHR ''a''), (1, onBackspace), (2, onKeyPress CHR ''x'')] initial_session)
     = (run_calls Test ''ab''
       [(0, onKeyPress CHR ''a''), (1, onBackspace), (2, onKeyPress CHR ''x'')] initial_session, [])
   \<and> isComplete (LearningMode_run ''ab''
       [(0, char_event CHR ''x''), (1, backspace_event), (2, char_event CHR ''a''),
        (3, char_event CHR ''b'')] initial_session)
   \<and> correctCount (LearningMode_run ''ab''
       [(0, char_event CHR ''x''), (1, backspace_event), (2, char_event CHR ''a''),
        (3, char_event CHR ''b'')] initial_session) = 2
   \<and> LearningMode_keydown ''ab'' 9 backspace_event (LearningMode_run ''ab''
       [(0, char_event CHR ''x''), (1, backspace_event), (2, char_event CHR ''a''),
        (3, char_event CHR ''b'')] initial_session)
     = LearningMode_run ''ab''
       [(0, char_event CHR ''x''), (1, backspace_event), (2, char_event CHR ''a''),
        (3, char_event CHR ''b'')] initial_session
   \<and> TestMode_keydown ''ab'' False False 9 backspace_event (TestMode_run ''ab''
       [(False, False, 0, char_event CHR ''a''), (False, False, 1, char_event CHR ''x'')]
       initial_session)
     = TestMode_run ''ab''
       [(False, False, 0, char_event CHR ''a''), (False, False, 1, char_event CHR ''x'')]
       initial_session"
proof -
  let ?T = "TestMode_run ''ab''
       [(False, False, 0, char_event CHR ''a''), (False, False, 1, char_event CHR ''x'')]
       initial_session"
  have cT: "isComplete ?T" by (simp add: session_eval)
  let ?S = "run_calls Test ''ab''
       [(0, onKeyPress CHR ''a''), (1, onBackspace), (2, onKeyPress CHR ''x'')] initial_session"
  let ?L = "LearningMode_run ''ab''
       [(0, char_event CHR ''x''), (1, backspace_event), (2, char_event CHR ''a''),
        (3, char_event CHR ''b'')] initial_session"
  have cS: "isComplete ?S" by (simp add: session_eval)
  have cL: "isComplete ?L" by (simp add: session_eval)
  have nL: "correctCount ?L = 2" by (simp add: session_eval)
  note th = session_invariants [OF refl refl refl, where m = Test and ?txt = "''ab''"
      and cs = "[(0, onKeyPress CHR ''a''), (1, onBackspace), (2, onKeyPress CHR ''x'')]"
      and evs = "[(0, char_event CHR ''x''), (1, backspace_event), (2, char_event CHR ''a''),
        (3, char_event CHR ''b'')]"
      and tevs = "[(False, False, 0, char_event CHR ''a''),
        (False, False, 1, char_event CHR ''x'')]"
      and now = 9 and k = "CHR ''z''" and ev = backspace_event and tf = False and sr = False]
  have a: "currentIndex ?S = length ''ab''"
    using th [THEN conjunct2, THEN conjunct2, THEN conjunct2, THEN conjunct1] cS by blast
  have b: "handleKeyPress ''ab'' 9 CHR ''z'' ?S = (?S, [])"
    using th [THEN conjunct2, THEN conjunct2, THEN conjunct1] cS by blast
  have c: "LearningMode_keydown ''ab'' 9 backspace_event ?L = ?L"
    using th [THEN conjunct2, THEN conjunct2, THEN conjunct2, THEN conjunct2, THEN conjunct2,
      THEN conjunct2, THEN conjunct1] cL by blast
  have d: "TestMode_keydown ''ab'' False False 9 backspace_event ?T = ?T"
    using th [THEN conjunct2, THEN conjunct2, THEN conjunct2, THEN conjunct2, THEN conjunct2,
      THEN conjunct2, THEN conjunct2, THEN conjunct2, THEN conjunct2, THEN conjunct1] cT
    by blast
  from cS a b cL nL c d show ?thesis by blast
qed

lemma last_entry_ok:
  assumes "session_ok txt s" "0 < currentIndex s"
  shows "typedChars s \<noteq> []"
    and "expected (last (typedChars s)) = Some (txt ! (currentIndex s - 1))"
    and "correct (last (typedChars s)) = (char (last (typedChars s)) = txt ! (currentIndex s - 1))"
    and "correct (last (typedChars s)) \<Longrightarrow> 0 < correctCount s"
    and "\<not> correct (last (typedChars s)) \<Longrightarrow> 0 < errors s"
proof -
  show ne: "typedChars s \<noteq> []" using assms by (auto simp: session_ok_def)
  have len: "currentIndex s = length (typedChars s)" using assms by (simp add: session_ok_def)
  have nth: "last (typedChars s) = typedChars s ! (currentIndex s - 1)"
    using ne by (simp add: last_conv_nth len)
  have "currentIndex s - 1 < length (typedChars s)" using assms(2) len by simp
  with assms(1) have e: "expected (typedChars s ! (currentIndex s - 1)) = Some (txt ! (currentIndex s - 1))
      \<and> correct (typedChars s ! (currentIndex s - 1))
          = (char (typedChars s ! (currentIndex s - 1)) = txt ! (currentIndex s - 1))"
    unfolding session_ok_def by blast
  show "expected (last (typedChars s)) = Some (txt ! (currentIndex s - 1))"
    using e by (simp add: nth)
  show "correct (last (typedChars s)) = (char (last (typedChars s)) = txt ! (currentIndex s - 1))"
    using e by (simp add: nth)
  have mem: "last (typedChars s) \<in> set (typedChars s)" using ne by simp
  show "0 < correctCount s" if "correct (last (typedChars s))"
  proof -
    have "filter correct (typedChars s) \<noteq> []"
      using mem that by (auto simp: filter_empty_conv)
    then show ?thesis using assms(1) by (simp add: session_ok_def)
  qed
  show "0 < errors s" if "\<not> correct (last (typedChars s))"
  proof -
    have "filter (\<lambda>e. \<not> correct e) (typedChars s) \<noteq> []"
      using mem that by (auto simp: filter_empty_conv)
    then show ?thesis using assms(1) by (simp add: session_ok_def)
  qed
qed

lemma retype_restores:
  assumes ok: "session_ok txt s" and pos: "0 < currentIndex s" and nc: "\<not> isComplete s"
  shows "fst (handleKeyPress txt now (char (last (typedChars s))) (fst (handleBackspace Learning s))) = s"
proof -
  note le = last_entry_ok [OF ok pos]
  have ne: "txt \<noteq> []" using ok pos by (auto simp: session_ok_def)
  have lt: "currentIndex s < length txt" using ok nc ne by (simp add: session_ok_def)
  have st: "hasStarted s" using ok pos by (simp add: session_ok_def)
  define b where "b = fst (handleBackspace Learning s)"
  have b: "b = s\<lparr>currentIndex := currentIndex s - 1,
       typedChars := butlast (typedChars s),
       errors := (if correct (last (typedChars s)) then errors s else errors s - 1),
       correctCount :=
         (if correct (last (typedChars s)) then correctCount s - 1 else correctCount s)\<rparr>"
    unfolding b_def by (rule handleBackspace_accepted [OF pos le(1)])
  have acc: "\<not> isComplete b" "txt \<noteq> []" using nc ne by (simp_all add: b)
  have ti: "text_index txt (currentIndex b) = Some (txt ! (currentIndex s - 1))"
    using lt by (simp add: b text_index_def)
  have entry: "\<lparr>char = char (last (typedChars s)), expected = Some (txt ! (currentIndex s - Suc 0)),
       correct = (char (last (typedChars s)) = txt ! (currentIndex s - Suc 0))\<rparr> = last (typedChars s)"
    using le(2) le(3) by (cases "last (typedChars s)") simp
  have tc: "butlast (typedChars s) @ [last (typedChars s)] = typedChars s"
    using le(1) by simp
  define r where "r = fst (handleKeyPress txt now (char (last (typedChars s))) b)"
  note r = r_def [unfolded handleKeyPress_accepted [OF acc] ti]
  have f1: "typedChars r = typedChars s" by (simp add: r b entry tc)
  have f2: "correctCount r = correctCount s" using le(3) le(4) by (auto simp: r b)
  have f3: "errors r = errors s" using le(3) le(5) by (auto simp: r b)
  have f4: "currentIndex r = currentIndex s" using pos by (simp add: r b)
  have f5: "isComplete r = isComplete s" using nc lt pos by (simp add: r b)
  have f6: "hasStarted r = hasStarted s" using st by (simp add: r b)
  have f7: "startTimeRef r = startTimeRef s" using st by (simp add: r b)
  have f8: "elapsedTime r = elapsedTime s" by (simp add: r b)
  have "r = s"
    by (rule session.equality) (simp_all add: f1 f2 f3 f4 f5 f6 f7 f8)
  then show ?thesis by (simp add: r_def b_def)
qed

text \<open>
  Claim C3, as stated, covers every session with a positive cursor, a complete one
  included. There \<open>handleBackspace\<close> removes the last entry and the \<open>handleKeyPress\<close>
  that follows is ignored, the session being complete: the cursor stays one short.
\<close>

theorem retype_after_completion_ignored:
  "0 < currentIndex (run_calls Learning ''a'' [(0, onKeyPress CHR ''a'')] initial_session)
   \<and> char (last (typedChars (run_calls Learning ''a'' [(0, onKeyPress CHR ''a'')] initial_session)))
      = CHR ''a''
   \<and> currentIndex (fst (handleKeyPress ''a'' 2 CHR ''a''
        (fst (handleBackspace Learning
          (run_calls Learning ''a'' [(0, onKeyPress CHR ''a'')] initial_session)))))
      \<noteq> currentIndex (run_calls Learning ''a'' [(0, onKeyPress CHR ''a'')] initial_session)"
  by (simp add: apply_call_def handleKeyPress_def handleBackspace_def text_index_def
      initial_session_def Let_def dec0_def)

text \<open>
  Claim C3 (amended): in learning mode, for every session reached by handler calls that
  has a positive cursor and is not complete, \<open>handleBackspace\<close> followed by
  \<open>handleKeyPress\<close> with the character just removed gives back the same session
  (entries, counters, cursor and every other field). Through the keyboard of
  \<open>LearningMode\<close> the same holds for every session with a positive cursor: a complete
  session receives neither event.
\<close>

theorem backspace_retype_round_trip:
  assumes "s = run_calls Learning txt cs initial_session"
    and "l = LearningMode_run txt evs initial_session"
  shows "(0 < currentIndex s \<and> \<not> isComplete s \<longrightarrow>
          fst (handleKeyPress txt now' (char (last (typedChars s)))
                (fst (handleBackspace Learning s))) = s)
       \<and> (0 < currentIndex l \<longrightarrow>
          LearningMode_keydown txt now' (char_event (char (last (typedChars l))))
            (LearningMode_keydown txt now backspace_event l) = l)"
proof -
  have s: "session_ok txt s"
    unfolding assms by (rule session_ok_run_calls [OF session_ok_initial])
  have l: "session_ok txt l"
    unfolding assms
    using LearningMode_run_ok [OF session_ok_initial complete_at_end_initial] by blast
  have a: "fst (handleKeyPress txt now' (char (last (typedChars s)))
                (fst (handleBackspace Learning s))) = s"
    if "0 < currentIndex s \<and> \<not> isComplete s"
    using that retype_restores [OF s] by blast
  have b: "LearningMode_keydown txt now' (char_event (char (last (typedChars l))))
            (LearningMode_keydown txt now backspace_event l) = l"
    if pos: "0 < currentIndex l"
  proof (cases "isComplete l")
    case True
    then show ?thesis by (simp add: LearningMode_keydown_complete)
  next
    case False
    have bk: "LearningMode_keydown txt now backspace_event l = fst (handleBackspace Learning l)"
      using False
      by (simp add: LearningMode_keydown_def handleKeyDown_def backspace_event_def apply_call_def)
    have nc: "\<not> isComplete (fst (handleBackspace Learning l))"
      using False
      by (simp add: handleBackspace_accepted [OF pos last_entry_ok(1) [OF l pos]])
    have ky: "LearningMode_keydown txt now' (char_event c) (fst (handleBackspace Learning l))
        = fst (handleKeyPress txt now' c (fst (handleBackspace Learning l)))" for c
      using nc
      by (simp add: LearningMode_keydown_def handleKeyDown_def char_event_def apply_call_def)
    show ?thesis
      unfolding bk ky by (rule retype_restores [OF l pos False])
  qed
  from a b show ?thesis by blast
qed

theorem backspace_retype_round_trip_witness:
  "0 < currentIndex (run_calls Learning ''ab'' [(0, onKeyPress CHR ''x'')] initial_session)
   \<and> isComplete (run_calls Learning ''ab'' [(0, onKeyPress CHR ''x'')] initial_session) = False
   \<and> errors (run_calls Learning ''ab'' [(0, onKeyPress CHR ''x'')] initial_session) = 1
   \<and> fst (handleKeyPress ''ab'' 5 CHR ''x''
        (fst (handleBackspace Learning
          (run_calls Learning ''ab'' [(0, onKeyPress CHR ''x'')] initial_session))))
      = run_calls Learning ''ab'' [(0, onKeyPress CHR ''x'')] initial_session"
proof -
  let ?S = "run_calls Learning ''ab'' [(0, onKeyPress CHR ''x'')] initial_session"
  have h: "0 < currentIndex ?S \<and> \<not> isComplete ?S" by (simp add: session_eval)
  have e: "errors ?S = 1" by (simp add: session_eval)
  have c: "char (last (typedChars ?S)) = CHR ''x''" by (simp add: session_eval)
  from backspace_retype_round_trip [OF refl refl, where ?txt = "''ab''"
      and cs = "[(0, onKeyPress CHR ''x'')]" and now' = 5, THEN conjunct1, rule_format, OF h]
  have "fst (handleKeyPress ''ab'' 5 CHR ''x'' (fst (handleBackspace Learning ?S))) = ?S"
    unfolding c .
  with h e show ?thesis by simp
qed

lemma feedKeys_advance:
  "\<not> isComplete s \<Longrightarrow> currentIndex s < length txt \<Longrightarrow>
   currentIndex s + length ks \<le> length txt \<Longrightarrow>
   currentIndex (feedKeys txt now ks s) = currentIndex s + length ks
   \<and> isComplete (feedKeys txt now ks s) = (currentIndex s + length ks = length txt)"
proof (induction ks arbitrary: s)
  case Nil
  then show ?case by simp
next
  case (Cons k ks)
  from Cons.prems have acc: "\<not> isComplete s" "txt \<noteq> []" by auto
  define s' where "s' = fst (handleKeyPress txt now k s)"
  have idx: "currentIndex s' = currentIndex s + 1"
    and cmp: "isComplete s' = (length txt \<le> currentIndex s + 1)"
    unfolding s'_def handleKeyPress_accepted [OF acc] by simp_all
  show ?case
  proof (cases "length txt \<le> currentIndex s + 1")
    case True
    from Cons.prems have "currentIndex s + Suc (length ks) \<le> length txt" by simp
    with True have "length ks = 0" by linarith
    then have "ks = []" by simp
    then show ?thesis using True Cons.prems idx cmp by (simp add: s'_def [symmetric])
  next
    case False
    then have "\<not> isComplete s'" "currentIndex s' < length txt"
      "currentIndex s' + length ks \<le> length txt"
      using Cons.prems idx cmp by simp_all
    from Cons.IH [OF this] show ?thesis
      by (simp add: s'_def [symmetric] idx)
  qed
qed

lemma feedKeys_empty_text: "feedKeys [] now ks s = s"
  by (induction ks) (simp_all add: handleKeyPress_ignored)

lemma run_calls_empty_text: "currentIndex s = 0 \<Longrightarrow> run_calls m [] cs s = s"
  by (induction cs)
    (simp_all add: apply_call_def handleKeyPress_ignored handleBackspace_ignored
      split: input_call.splits)

text \<open>
  Claim C4, as stated, covers every text, the empty one included: for the empty text the
  keystroke sequence of length 0 leaves the session incomplete.
\<close>

theorem empty_text_never_completes:
  "length ([] :: char list) = length ([] :: string)
   \<and> isComplete (feedKeys [] 0 [] initial_session) = False"
  by (simp add: initial_session_def)

text \<open>
  Claim C4 (amended): for every non-empty text, feeding any keystroke sequence of exactly
  the length of the text through \<open>handleKeyPress\<close>, each key correct or not, completes
  the session with the cursor at the end; a shorter sequence does not complete it. On
  the empty text no sequence of keystrokes, and no sequence of handler calls, changes the
  initial session, which is neither started nor complete.
\<close>

theorem full_length_completes:
  "(txt \<noteq> [] \<and> length ks = length txt \<longrightarrow>
      isComplete (feedKeys txt now ks initial_session)
      \<and> currentIndex (feedKeys txt now ks initial_session) = length txt)
   \<and> (length ks < length txt \<longrightarrow> \<not> isComplete (feedKeys txt now ks initial_session))
   \<and> feedKeys [] now ks initial_session = initial_session
   \<and> run_calls m [] cs initial_session = initial_session
   \<and> \<not> hasStarted initial_session \<and> \<not> isComplete initial_session"
proof -
  have i: "\<not> isComplete initial_session" "currentIndex initial_session = 0"
    "\<not> hasStarted initial_session"
    by (simp_all add: initial_session_def)
  have a: "isComplete (feedKeys txt now ks initial_session)
      \<and> currentIndex (feedKeys txt now ks initial_session) = length txt"
    if "txt \<noteq> [] \<and> length ks = length txt"
    using that feedKeys_advance [of initial_session "txt" ks now] i by simp
  have b: "\<not> isComplete (feedKeys txt now ks initial_session)" if "length ks < length txt"
  proof -
    from that have "txt \<noteq> []" by auto
    with that feedKeys_advance [of initial_session "txt" ks now] i show ?thesis by simp
  qed
  from a b i show ?thesis
    by (simp add: feedKeys_empty_text run_calls_empty_text)
qed

theorem full_length_completes_witness:
  "length ''xy'' = length ''ab''
   \<and> isComplete (feedKeys ''ab'' 0 ''xy'' initial_session)
   \<and> currentIndex (feedKeys ''ab'' 0 ''xy'' initial_session) = 2
   \<and> errors (feedKeys ''ab'' 0 ''xy'' initial_session) = 2
   \<and> isComplete (feedKeys ''ab'' 0 ''x'' initial_session) = False"
proof -
  have h: "''ab'' \<noteq> [] \<and> length ''xy'' = length ''ab''" by simp
  from full_length_completes [where ?txt = "''ab''" and ks = "''xy''" and now = 0,
      THEN conjunct1, rule_format, OF h]
  have a: "isComplete (feedKeys ''ab'' 0 ''xy'' initial_session)
      \<and> currentIndex (feedKeys ''ab'' 0 ''xy'' initial_session) = 2"
    by simp
  have h': "length ''x'' < length ''ab''" by simp
  from full_length_completes [where ?txt = "''ab''" and ks = "''x''" and now = 0,
      THEN conjunct2, THEN conjunct1, rule_format, OF h']
  have b: "isComplete (feedKeys ''ab'' 0 ''x'' initial_session) = False"
    by simp
  have e: "errors (feedKeys ''ab'' 0 ''xy'' initial_session) = 2"
    by (simp add: session_eval)
  from a b e show ?thesis by simp
qed

end
